theory Spec2Isabelle
  imports Main "HOL-Library.Sublist" "HOL-Library.Multiset"
begin

section \<open>Strings of the runtime\<close>

text \<open>
  The journal (\<^verbatim>\<open>src/App.jsx\<close>) works on JavaScript strings. A string is modelled as
  a \<^typ>\<open>string\<close> whose characters are the code points U+0000 to U+00FF; on this range
  the functions below are the ones of the language standard: \<^verbatim>\<open>trim\<close> strips white space
  and line terminators (TAB, LF, VT, FF, CR, SP, NBSP), \<^verbatim>\<open>toLowerCase\<close> maps A-Z and the
  capital letters U+00C0-U+00DE (but not the multiplication sign U+00D7) 32 places up.
\<close>

definition isWhiteSpace :: "char \<Rightarrow> bool" where
  "isWhiteSpace c = (of_char c \<in> {9, 10, 11, 12, 13, 32, 160 :: nat})"

definition trim :: "string \<Rightarrow> string" where
  "trim s = rev (dropWhile isWhiteSpace (rev (dropWhile isWhiteSpace s)))"

definition toLowerCase_char :: "char \<Rightarrow> char" where
  "toLowerCase_char c =
     (let n = (of_char c :: nat)
      in if (65 \<le> n \<and> n \<le> 90) \<or> (192 \<le> n \<and> n \<le> 214) \<or> (216 \<le> n \<and> n \<le> 222)
         then char_of (n + 32) else c)"

definition toLowerCase :: "string \<Rightarrow> string" where
  "toLowerCase s = map toLowerCase_char s"

fun startsWith :: "string \<Rightarrow> string \<Rightarrow> bool" where
  "startsWith s [] = True"
| "startsWith [] (c # cs) = False"
| "startsWith (x # xs) (c # cs) = (x = c \<and> startsWith xs cs)"

text \<open>\<^verbatim>\<open>haystack.includes(needle)\<close>: the needle occurs at some position of the haystack.\<close>

fun includes_str :: "string \<Rightarrow> string \<Rightarrow> bool" where
  "includes_str [] needle = (needle = [])"
| "includes_str (x # xs) needle = (startsWith (x # xs) needle \<or> includes_str xs needle)"

text \<open>
  \<^verbatim>\<open>s.split(sep)\<close> for a separator of one character: the pieces between the separators,
  so the empty string splits into one empty piece.
\<close>

fun split :: "char \<Rightarrow> string \<Rightarrow> string list" where
  "split sep [] = [[]]"
| "split sep (c # cs) =
     (if c = sep then [] # split sep cs
      else (case split sep cs of [] \<Rightarrow> [[c]] | w # ws \<Rightarrow> (c # w) # ws))"

fun join :: "string \<Rightarrow> string list \<Rightarrow> string" where
  "join sep [] = []"
| "join sep [x] = x"
| "join sep (x # y # ys) = x @ sep @ join sep (y # ys)"

section \<open>Posts and the seed set\<close>

text \<open>
  A post object. The field \<^verbatim>\<open>id\<close> is called \<open>post_id\<close> here. The view reads
  \<^verbatim>\<open>post.tags || []\<close>, so a post without tags is a value the code provides for: it is
  \<open>tags = None\<close>.
\<close>

record post =
  post_id :: string
  title :: string
  date :: string
  tags :: "string list option"
  summary :: string
  content :: string

definition seedPosts :: "post list" where
  "seedPosts =
     [\<lparr>post_id = ''seed-1'',
       title = ''Kickoff and goals'',
       date = ''2026-01-28'',
       tags = Some [''planning'', ''goals''],
       summary = ''Defined the scope, schedule, and first-week focus.'',
       content = ''Mapped out weekly themes, picked core resources, and set a simple daily routine.''\<rparr>,
      \<lparr>post_id = ''seed-2'',
       title = ''First practice session'',
       date = ''2026-01-27'',
       tags = Some [''practice'', ''notes''],
       summary = ''Completed the first hands-on exercise and documented gaps.'',
       content = ''Built a tiny prototype, captured what felt confusing, and wrote follow-up questions.''\<rparr>]"

section \<open>The filtered view\<close>

text \<open>
  \<^verbatim>\<open>Array.prototype.sort(compare)\<close> is a stable sort: an element goes before the first
  element that \<^verbatim>\<open>compare\<close> does not put before it. For a consistent comparator every
  stable sort gives this list.
\<close>

fun insert_by :: "('a \<Rightarrow> 'a \<Rightarrow> int) \<Rightarrow> 'a \<Rightarrow> 'a list \<Rightarrow> 'a list" where
  "insert_by compare x [] = [x]"
| "insert_by compare x (y # ys) =
     (if compare x y \<le> 0 then x # y # ys else y # insert_by compare x ys)"

fun sort_by :: "('a \<Rightarrow> 'a \<Rightarrow> int) \<Rightarrow> 'a list \<Rightarrow> 'a list" where
  "sort_by compare [] = []"
| "sort_by compare (x # xs) = insert_by compare x (sort_by compare xs)"

text \<open>
  \<^verbatim>\<open>a.localeCompare(b)\<close> belongs to the runtime and depends on its collation, so the view
  takes it as a parameter. A comparator is consistent when it is total and transitive.
  \<open>compareCodeUnits\<close> is the plain comparison of strings, character by character.
\<close>

definition consistent :: "('a \<Rightarrow> 'a \<Rightarrow> int) \<Rightarrow> bool" where
  "consistent compare =
     ((\<forall>a b. compare a b \<le> 0 \<or> compare b a \<le> 0) \<and>
      (\<forall>a b c. compare a b \<le> 0 \<longrightarrow> compare b c \<le> 0 \<longrightarrow> compare a c \<le> 0))"

fun compareCodeUnits :: "string \<Rightarrow> string \<Rightarrow> int" where
  "compareCodeUnits [] [] = 0"
| "compareCodeUnits [] (y # ys) = - 1"
| "compareCodeUnits (x # xs) [] = 1"
| "compareCodeUnits (x # xs) (y # ys) =
     (if (of_char x :: nat) < of_char y then - 1
      else if (of_char y :: nat) < of_char x then 1
      else compareCodeUnits xs ys)"

definition byDateDescending :: "(string \<Rightarrow> string \<Rightarrow> int) \<Rightarrow> post \<Rightarrow> post \<Rightarrow> int" where
  "byDateDescending localeCompare a b = localeCompare (date b) (date a)"

definition haystack :: "post \<Rightarrow> string" where
  "haystack p =
     toLowerCase
       (join '' '' ([title p, summary p, content p] @ (case tags p of None \<Rightarrow> [] | Some ts \<Rightarrow> ts)))"

definition filteredPosts :: "(string \<Rightarrow> string \<Rightarrow> int) \<Rightarrow> post list \<Rightarrow> string \<Rightarrow> post list" where
  "filteredPosts localeCompare posts query =
     (let normalized = toLowerCase (trim query);
          list = sort_by (byDateDescending localeCompare) posts
      in if normalized = [] then list
         else filter (\<lambda>p. includes_str (haystack p) normalized) list)"

section \<open>Array identity in the view\<close>

text \<open>
  In the source the view is computed on arrays that are objects: \<^verbatim>\<open>[...posts]\<close> builds a
  new array, \<^verbatim>\<open>sort\<close> reorders the array it is called on and returns it, \<^verbatim>\<open>filter\<close>
  builds a new array. The heap maps references to array contents; the references below
  \<open>next_ref\<close> are the arrays in use.
\<close>

type_synonym ref = nat

record heap =
  arrays :: "ref \<Rightarrow> post list"
  next_ref :: ref

definition spread :: "ref \<Rightarrow> heap \<Rightarrow> ref \<times> heap" where
  "spread a h =
     (next_ref h, h\<lparr>arrays := (arrays h)(next_ref h := arrays h a), next_ref := Suc (next_ref h)\<rparr>)"

definition sort_in_place :: "(post \<Rightarrow> post \<Rightarrow> int) \<Rightarrow> ref \<Rightarrow> heap \<Rightarrow> ref \<times> heap" where
  "sort_in_place compare a h = (a, h\<lparr>arrays := (arrays h)(a := sort_by compare (arrays h a))\<rparr>)"

definition filter_new :: "(post \<Rightarrow> bool) \<Rightarrow> ref \<Rightarrow> heap \<Rightarrow> ref \<times> heap" where
  "filter_new keep a h =
     (next_ref h,
      h\<lparr>arrays := (arrays h)(next_ref h := filter keep (arrays h a)), next_ref := Suc (next_ref h)\<rparr>)"

definition filteredPosts_heap ::
  "(string \<Rightarrow> string \<Rightarrow> int) \<Rightarrow> ref \<Rightarrow> string \<Rightarrow> heap \<Rightarrow> ref \<times> heap" where
  "filteredPosts_heap localeCompare posts query h =
     (let normalized = toLowerCase (trim query);
          (copy, h1) = spread posts h;
          (list, h2) = sort_in_place (byDateDescending localeCompare) copy h1
      in if normalized = [] then (list, h2)
         else filter_new (\<lambda>p. includes_str (haystack p) normalized) list h2)"

section \<open>Loading the stored posts\<close>

text \<open>
  \<^verbatim>\<open>JSON.parse\<close> belongs to the runtime: it either throws a \<^verbatim>\<open>SyntaxError\<close> or returns a
  value. \<open>loadPosts\<close> takes it as a parameter, with the contents of \<^verbatim>\<open>localStorage\<close>, and
  returns the value the source returns together with the messages written by
  \<^verbatim>\<open>console.error\<close>. The guard \<^verbatim>\<open>!saved\<close> holds for a missing entry and for the empty
  string. Numbers are not looked at by any code here; they are carried as integers.
\<close>

datatype js_value =
    JNull
  | JBoolean bool
  | JNumber int
  | JString string
  | JArray "js_value list"
  | JObject "(string \<times> js_value) list"

datatype parse_result = SyntaxError | Parsed js_value

fun isArray :: "js_value \<Rightarrow> bool" where
  "isArray (JArray xs) = True"
| "isArray v = False"

definition STORAGE_KEY :: string where
  "STORAGE_KEY = ''independent-study-posts-v1''"

text \<open>The object a post is, as a value: its fields in the order of the source.\<close>

definition post_object :: "post \<Rightarrow> js_value" where
  "post_object p =
     JObject
       ([(''id'', JString (post_id p)), (''title'', JString (title p)), (''date'', JString (date p))]
        @ (case tags p of None \<Rightarrow> [] | Some ts \<Rightarrow> [(''tags'', JArray (map JString ts))])
        @ [(''summary'', JString (summary p)), (''content'', JString (content p))])"

definition posts_array :: "post list \<Rightarrow> js_value" where
  "posts_array ps = JArray (map post_object ps)"

definition loadPosts ::
  "(string \<Rightarrow> parse_result) \<Rightarrow> (string \<Rightarrow> string option) \<Rightarrow> js_value \<times> string list" where
  "loadPosts JSON_parse localStorage =
     (case localStorage STORAGE_KEY of
        None \<Rightarrow> (posts_array seedPosts, [])
      | Some saved \<Rightarrow>
          if saved = [] then (posts_array seedPosts, [])
          else (case JSON_parse saved of
                  SyntaxError \<Rightarrow> (posts_array seedPosts, [''Failed to parse saved posts''])
                | Parsed parsed \<Rightarrow>
                    if isArray parsed then (parsed, []) else (posts_array seedPosts, [])))"

section \<open>The application state and its handlers\<close>

text \<open>
  What a handler asks of the runtime when it runs: the date
  \<^verbatim>\<open>new Date().toISOString().slice(0, 10)\<close>, the result of \<^verbatim>\<open>crypto.randomUUID()\<close>
  (\<open>None\<close> where the runtime has no such function), the clock \<^verbatim>\<open>Date.now()\<close>, and the
  user's answer to \<^verbatim>\<open>confirm\<close>.
\<close>

record runtime =
  today :: string
  randomUUID :: "string option"
  now :: nat
  confirm :: bool

text \<open>The decimal digits of a number, as the template \<^verbatim>\<open>`post-${Date.now()}`\<close> writes them.\<close>

function decimal :: "nat \<Rightarrow> string" where
  "decimal n =
     (if n < 10 then [''0123456789'' ! n]
      else decimal (n div 10) @ [''0123456789'' ! (n mod 10)])"
  by pat_completeness auto
termination
  by (relation "measure (\<lambda>n. n)") auto

declare decimal.simps [simp del]

definition makeId :: "runtime \<Rightarrow> string" where
  "makeId rt = (case randomUUID rt of Some uuid \<Rightarrow> uuid | None \<Rightarrow> ''post-'' @ decimal (now rt))"

record draft =
  draft_title :: string
  draft_date :: string
  draft_tags :: string
  draft_summary :: string
  draft_content :: string

text \<open>
  \<^verbatim>\<open>emptyDraft\<close> is a constant of the module: its date is computed once, when the module is
  evaluated. \<open>moduleDate\<close> is that date.
\<close>

definition emptyDraft :: "string \<Rightarrow> draft" where
  "emptyDraft moduleDate =
     \<lparr>draft_title = [], draft_date = moduleDate, draft_tags = [], draft_summary = [],
      draft_content = []\<rparr>"

definition parseTags :: "string \<Rightarrow> string list" where
  "parseTags s = filter (\<lambda>tag. tag \<noteq> []) (map trim (split CHR '','' s))"

definition newPost :: "runtime \<Rightarrow> draft \<Rightarrow> post" where
  "newPost rt d =
     \<lparr>post_id = makeId rt,
      title = trim (draft_title d),
      date = (if draft_date d = [] then today rt else draft_date d),
      tags = Some (parseTags (draft_tags d)),
      summary = trim (draft_summary d),
      content = trim (draft_content d)\<rparr>"

text \<open>The two updates of the collection: \<^verbatim>\<open>[newPost, ...current]\<close> and the filter of \<^verbatim>\<open>removePost\<close>.\<close>

definition addPost :: "post \<Rightarrow> post list \<Rightarrow> post list" where
  "addPost p current = p # current"

definition removePost :: "string \<Rightarrow> post list \<Rightarrow> post list" where
  "removePost i current = filter (\<lambda>p. post_id p \<noteq> i) current"

record state =
  posts :: "post list"
  draft :: draft
  query :: string
  showForm :: bool
  localStorage :: "string \<Rightarrow> string option"

datatype field = Title | Date | Tags | Summary | Content

fun handleChange :: "field \<Rightarrow> string \<Rightarrow> state \<Rightarrow> state" where
  "handleChange Title v s = s\<lparr>draft := (draft s)\<lparr>draft_title := v\<rparr>\<rparr>"
| "handleChange Date v s = s\<lparr>draft := (draft s)\<lparr>draft_date := v\<rparr>\<rparr>"
| "handleChange Tags v s = s\<lparr>draft := (draft s)\<lparr>draft_tags := v\<rparr>\<rparr>"
| "handleChange Summary v s = s\<lparr>draft := (draft s)\<lparr>draft_summary := v\<rparr>\<rparr>"
| "handleChange Content v s = s\<lparr>draft := (draft s)\<lparr>draft_content := v\<rparr>\<rparr>"

definition handleSubmit :: "string \<Rightarrow> runtime \<Rightarrow> state \<Rightarrow> state" where
  "handleSubmit moduleDate rt s =
     (if trim (draft_title (draft s)) = [] \<or> trim (draft_content (draft s)) = [] then s
      else (let p = newPost rt (draft s)
            in s\<lparr>posts := addPost p (posts s),
                 draft := (emptyDraft moduleDate)\<lparr>draft_date := date p\<rparr>\<rparr>))"

definition resetPosts :: "runtime \<Rightarrow> state \<Rightarrow> state" where
  "resetPosts rt s = (if \<not> confirm rt then s else s\<lparr>posts := seedPosts\<rparr>)"

definition clearDraft :: "string \<Rightarrow> state \<Rightarrow> state" where
  "clearDraft moduleDate s = s\<lparr>draft := emptyDraft moduleDate\<rparr>"

text \<open>
  The effect \<^verbatim>\<open>useEffect(..., [posts])\<close> runs after an event that changed \<^verbatim>\<open>posts\<close> and
  stores \<^verbatim>\<open>JSON.stringify(posts)\<close>, a function of the runtime taken as a parameter. The
  source compares the identity of the array, the model its contents. They differ when a
  handler sets an array with the contents of the old one: removing an id that no post
  has, or a confirmed reset of a collection that holds the seed posts already. The source
  then stores the collection again and the model does not. The write after the first
  render is not part of an event and is not modelled. The properties below that speak of
  \<open>localStorage\<close> are about events that do not set the collection.
\<close>

definition saveEffect :: "(post list \<Rightarrow> string) \<Rightarrow> state \<Rightarrow> state \<Rightarrow> state" where
  "saveEffect stringify before after =
     (if posts after = posts before then after
      else after\<lparr>localStorage := (localStorage after)(STORAGE_KEY \<mapsto> stringify (posts after))\<rparr>)"

datatype event =
    Change field string
  | Submit
  | Remove string
  | Reset
  | Clear
  | SetQuery string
  | ToggleForm

fun handler :: "string \<Rightarrow> runtime \<Rightarrow> event \<Rightarrow> state \<Rightarrow> state" where
  "handler moduleDate rt (Change f v) s = handleChange f v s"
| "handler moduleDate rt Submit s = handleSubmit moduleDate rt s"
| "handler moduleDate rt (Remove i) s = s\<lparr>posts := removePost i (posts s)\<rparr>"
| "handler moduleDate rt Reset s = resetPosts rt s"
| "handler moduleDate rt Clear s = clearDraft moduleDate s"
| "handler moduleDate rt (SetQuery q) s = s\<lparr>query := q\<rparr>"
| "handler moduleDate rt ToggleForm s = s\<lparr>showForm := \<not> showForm s\<rparr>"

definition dispatch :: "string \<Rightarrow> (post list \<Rightarrow> string) \<Rightarrow> runtime \<Rightarrow> event \<Rightarrow> state \<Rightarrow> state" where
  "dispatch moduleDate stringify rt e s = saveEffect stringify s (handler moduleDate rt e s)"

fun run :: "string \<Rightarrow> (post list \<Rightarrow> string) \<Rightarrow> (runtime \<times> event) list \<Rightarrow> state \<Rightarrow> state" where
  "run moduleDate stringify [] s = s"
| "run moduleDate stringify ((rt, e) # es) s =
     run moduleDate stringify es (dispatch moduleDate stringify rt e s)"

section \<open>Runs of the store and the invariant of the data model\<close>

text \<open>
  The operations of the store on their own: an add puts the post in front, a remove
  filters by id. A remove is successful when a post with the id is present. An add is
  fresh when no post of the collection has the id of the added post.
\<close>

datatype store_op = AddOp post | RemoveOp string

fun apply_op :: "store_op \<Rightarrow> post list \<Rightarrow> post list" where
  "apply_op (AddOp p) current = addPost p current"
| "apply_op (RemoveOp i) current = removePost i current"

fun apply_ops :: "store_op list \<Rightarrow> post list \<Rightarrow> post list" where
  "apply_ops [] current = current"
| "apply_ops (x # xs) current = apply_ops xs (apply_op x current)"

fun count_adds :: "store_op list \<Rightarrow> nat" where
  "count_adds [] = 0"
| "count_adds (AddOp p # xs) = Suc (count_adds xs)"
| "count_adds (RemoveOp i # xs) = count_adds xs"

fun count_successful_removes :: "store_op list \<Rightarrow> post list \<Rightarrow> nat" where
  "count_successful_removes [] current = 0"
| "count_successful_removes (AddOp p # xs) current =
     count_successful_removes xs (apply_op (AddOp p) current)"
| "count_successful_removes (RemoveOp i # xs) current =
     (if i \<in> set (map post_id current) then 1 else 0)
     + count_successful_removes xs (apply_op (RemoveOp i) current)"

fun fresh_adds :: "store_op list \<Rightarrow> post list \<Rightarrow> bool" where
  "fresh_adds [] current = True"
| "fresh_adds (AddOp p # xs) current =
     (post_id p \<notin> set (map post_id current) \<and> fresh_adds xs (apply_op (AddOp p) current))"
| "fresh_adds (RemoveOp i # xs) current = fresh_adds xs (apply_op (RemoveOp i) current)"

text \<open>The invariant of the data model, and the runs in which no generated id is in use.\<close>

definition valid_post :: "post \<Rightarrow> bool" where
  "valid_post p =
     (title p \<noteq> [] \<and> content p \<noteq> [] \<and> (case tags p of None \<Rightarrow> True | Some ts \<Rightarrow> [] \<notin> set ts))"

definition store_invariant :: "post list \<Rightarrow> bool" where
  "store_invariant ps = (list_all valid_post ps \<and> distinct (map post_id ps))"

fun fresh_ids ::
  "string \<Rightarrow> (post list \<Rightarrow> string) \<Rightarrow> (runtime \<times> event) list \<Rightarrow> state \<Rightarrow> bool" where
  "fresh_ids moduleDate stringify [] s = True"
| "fresh_ids moduleDate stringify ((rt, e) # es) s =
     ((e \<noteq> Submit \<or> makeId rt \<notin> set (map post_id (posts s))) \<and>
      fresh_ids moduleDate stringify es (dispatch moduleDate stringify rt e s))"

section \<open>Properties of the view\<close>

lemma startsWith_iff: "startsWith s n \<longleftrightarrow> (\<exists>v. s = n @ v)"
  by (induction s n rule: startsWith.induct) auto

lemma includes_str_iff: "includes_str h n \<longleftrightarrow> (\<exists>u v. h = u @ n @ v)"
proof (induction h)
  case Nil
  then show ?case by auto
next
  case (Cons x xs)
  show ?case
  proof
    assume "includes_str (x # xs) n"
    then consider "startsWith (x # xs) n" | "includes_str xs n" by auto
    then show "\<exists>u v. x # xs = u @ n @ v"
    proof cases
      case 1
      then obtain v where "x # xs = n @ v" using startsWith_iff by blast
      then have "x # xs = [] @ n @ v" by simp
      then show ?thesis by blast
    next
      case 2
      then obtain u v where "xs = u @ n @ v" using Cons.IH by blast
      then have "x # xs = (x # u) @ n @ v" by simp
      then show ?thesis by blast
    qed
  next
    assume "\<exists>u v. x # xs = u @ n @ v"
    then obtain u v where uv: "x # xs = u @ n @ v" by blast
    show "includes_str (x # xs) n"
    proof (cases u)
      case Nil
      then have "startsWith (x # xs) n" using uv startsWith_iff by auto
      then show ?thesis by simp
    next
      case (Cons a u')
      then have "xs = u' @ n @ v" using uv by simp
      then have "includes_str xs n" using Cons.IH by blast
      then show ?thesis by simp
    qed
  qed
qed

lemma mset_insert_by: "mset (insert_by compare x xs) = add_mset x (mset xs)"
  by (induction xs) auto

lemma mset_sort_by: "mset (sort_by compare xs) = mset xs"
  by (induction xs) (auto simp: mset_insert_by)

lemma set_insert_by: "set (insert_by compare x xs) = insert x (set xs)"
  by (induction xs) auto

lemma set_sort_by: "set (sort_by compare xs) = set xs"
  by (induction xs) (auto simp: set_insert_by)

lemma sorted_insert_by:
  assumes "consistent compare" and "sorted_wrt (\<lambda>a b. compare a b \<le> 0) xs"
  shows "sorted_wrt (\<lambda>a b. compare a b \<le> 0) (insert_by compare x xs)"
  using assms(2)
proof (induction xs)
  case Nil
  then show ?case by simp
next
  case (Cons y ys)
  have total: "\<And>a b. \<not> compare a b \<le> 0 \<Longrightarrow> compare b a \<le> 0"
    using assms(1) unfolding consistent_def by blast
  have trans: "\<And>a b c. compare a b \<le> 0 \<Longrightarrow> compare b c \<le> 0 \<Longrightarrow> compare a c \<le> 0"
    using assms(1) unfolding consistent_def by blast
  show ?case
  proof (cases "compare x y \<le> 0")
    case True
    then have "\<forall>z\<in>set ys. compare x z \<le> 0" using Cons.prems trans by auto
    then show ?thesis using True Cons.prems by simp
  next
    case False
    then have "compare y x \<le> 0" using total by blast
    then show ?thesis using False Cons by (auto simp: set_insert_by)
  qed
qed

lemma sorted_sort_by:
  "consistent compare \<Longrightarrow> sorted_wrt (\<lambda>a b. compare a b \<le> 0) (sort_by compare xs)"
  by (induction xs) (auto simp: sorted_insert_by)

lemma consistent_byDateDescending:
  "consistent localeCompare \<Longrightarrow> consistent (byDateDescending localeCompare)"
  unfolding consistent_def byDateDescending_def by blast

lemma compareCodeUnits_Cons_le:
  "compareCodeUnits (x # xs) (y # ys) \<le> 0 \<longleftrightarrow>
     (of_char x :: nat) < of_char y \<or> (x = y \<and> compareCodeUnits xs ys \<le> 0)"
  by (cases "(of_char x :: nat) < of_char y"; cases "(of_char y :: nat) < of_char x") auto

lemma compareCodeUnits_Nil_le: "compareCodeUnits [] b \<le> 0"
  by (cases b) auto

lemma compareCodeUnits_trans:
  "compareCodeUnits a b \<le> 0 \<Longrightarrow> compareCodeUnits b c \<le> 0 \<Longrightarrow> compareCodeUnits a c \<le> 0"
proof (induction a arbitrary: b c)
  case Nil
  then show ?case by (simp add: compareCodeUnits_Nil_le)
next
  case (Cons x xs)
  obtain y ys where b: "b = y # ys"
    using Cons.prems(1) by (cases b) auto
  obtain z zs where c: "c = z # zs"
    using Cons.prems(2) b by (cases c) auto
  have xy: "(of_char x :: nat) < of_char y \<or> (x = y \<and> compareCodeUnits xs ys \<le> 0)"
    using Cons.prems(1) unfolding b compareCodeUnits_Cons_le .
  have yz: "(of_char y :: nat) < of_char z \<or> (y = z \<and> compareCodeUnits ys zs \<le> 0)"
    using Cons.prems(2) unfolding b c compareCodeUnits_Cons_le .
  have "(of_char x :: nat) < of_char z \<or> (x = z \<and> compareCodeUnits xs zs \<le> 0)"
    using xy yz Cons.IH[of ys zs] by (metis less_trans)
  then show ?case unfolding c compareCodeUnits_Cons_le .
qed

lemma compareCodeUnits_total: "compareCodeUnits a b \<le> 0 \<or> compareCodeUnits b a \<le> 0"
  by (induction a b rule: compareCodeUnits.induct) auto

lemma consistent_compareCodeUnits: "consistent compareCodeUnits"
  unfolding consistent_def using compareCodeUnits_total compareCodeUnits_trans by blast

lemma toLowerCase_append: "toLowerCase (a @ b) = toLowerCase a @ toLowerCase b"
  by (simp add: toLowerCase_def)

lemma join_member: "t \<in> set xs \<Longrightarrow> \<exists>u v. join sep xs = u @ t @ v"
proof (induction sep xs rule: join.induct)
  case (1 sep)
  then show ?case by simp
next
  case (2 sep x)
  then have "join sep [x] = [] @ t @ []" by simp
  then show ?case by blast
next
  case (3 sep x y ys)
  show ?case
  proof (cases "t = x")
    case True
    then have "join sep (x # y # ys) = [] @ t @ (sep @ join sep (y # ys))" by simp
    then show ?thesis by blast
  next
    case False
    then have "t \<in> set (y # ys)" using 3 by auto
    then obtain u v where "join sep (y # ys) = u @ t @ v" using 3 by blast
    then have "join sep (x # y # ys) = (x @ sep @ u) @ t @ v" by simp
    then show ?thesis by blast
  qed
qed

lemma haystack_tag:
  assumes "tags p = Some ts" and "t \<in> set ts"
  shows "\<exists>u v. haystack p = u @ toLowerCase t @ v"
proof -
  have "t \<in> set ([title p, summary p, content p] @ ts)" using assms(2) by simp
  then obtain u v where "join '' '' ([title p, summary p, content p] @ ts) = u @ t @ v"
    using join_member by blast
  then have "haystack p = toLowerCase u @ toLowerCase t @ toLowerCase v"
    using assms(1) by (simp add: haystack_def toLowerCase_append)
  then show ?thesis by blast
qed

lemma planning_matches_PLAN:
  assumes "tags p = Some ts" and "''planning'' \<in> set ts"
  shows "includes_str (haystack p) (toLowerCase (trim ''PLAN''))"
proof -
  obtain u v where h: "haystack p = u @ toLowerCase ''planning'' @ v"
    using haystack_tag[OF assms] by blast
  have q: "toLowerCase (trim ''PLAN'') = ''plan''" by code_simp
  have t: "toLowerCase ''planning'' = ''plan'' @ ''ning''" by code_simp
  have "haystack p = u @ ''plan'' @ (''ning'' @ v)" unfolding h t by simp
  then show ?thesis unfolding q includes_str_iff by blast
qed

text \<open>
  Claim C1. For every collection and query, and a consistent \<^verbatim>\<open>localeCompare\<close>: the view
  is taken from the collection sorted descending by \<open>date\<close> (a permutation of the
  collection in which no later post has a greater date); when the trimmed, lower-cased
  query is empty the view is that sorted list; otherwise it keeps exactly the posts for
  which the lower-cased text of title, summary, content and all tags, joined with
  spaces, contains the trimmed, lower-cased query as a substring. So every post of the
  collection with the tag "planning" is in the view for the query "PLAN".
\<close>

theorem view_sorted_then_filtered:
  assumes "consistent localeCompare"
  shows "let normalized = toLowerCase (trim q);
             sorted = sort_by (byDateDescending localeCompare) ps
         in mset sorted = mset ps \<and>
            sorted_wrt (\<lambda>a b. localeCompare (date b) (date a) \<le> 0) sorted \<and>
            filteredPosts localeCompare ps q =
              (if normalized = [] then sorted
               else filter (\<lambda>p. \<exists>u v. toLowerCase (join '' '' ([title p, summary p, content p]
                        @ (case tags p of None \<Rightarrow> [] | Some ts \<Rightarrow> ts))) = u @ normalized @ v) sorted) \<and>
            (\<forall>p ts. p \<in> set ps \<longrightarrow> tags p = Some ts \<longrightarrow> ''planning'' \<in> set ts \<longrightarrow>
                p \<in> set (filteredPosts localeCompare ps ''PLAN''))"
proof -
  let ?sorted = "sort_by (byDateDescending localeCompare) ps"
  have s: "sorted_wrt (\<lambda>a b. byDateDescending localeCompare a b \<le> 0) ?sorted"
    using assms by (simp add: sorted_sort_by consistent_byDateDescending)
  then have s': "sorted_wrt (\<lambda>a b. localeCompare (date b) (date a) \<le> 0) ?sorted"
    by (simp add: byDateDescending_def)
  have f: "filteredPosts localeCompare ps q =
      (if toLowerCase (trim q) = [] then ?sorted
       else filter (\<lambda>p. \<exists>u v. toLowerCase (join '' '' ([title p, summary p, content p]
                @ (case tags p of None \<Rightarrow> [] | Some ts \<Rightarrow> ts))) = u @ toLowerCase (trim q) @ v) ?sorted)"
    by (simp add: filteredPosts_def Let_def includes_str_iff haystack_def)
  have e: "p \<in> set (filteredPosts localeCompare ps ''PLAN'')"
    if "p \<in> set ps" "tags p = Some ts" "''planning'' \<in> set ts" for p ts
  proof -
    have "includes_str (haystack p) (toLowerCase (trim ''PLAN''))"
      using planning_matches_PLAN that(2,3) by blast
    moreover have "toLowerCase (trim ''PLAN'') \<noteq> []" by code_simp
    ultimately show ?thesis
      using that(1) by (simp add: filteredPosts_def Let_def set_sort_by)
  qed
  show ?thesis
    unfolding Let_def using s' f e by (simp only: mset_sort_by) blast
qed

theorem view_sorted_then_filtered_witness:
  "consistent compareCodeUnits \<and>
   sorted_wrt (\<lambda>a b. compareCodeUnits (date b) (date a) \<le> 0)
     (sort_by (byDateDescending compareCodeUnits) (rev seedPosts)) \<and>
   sort_by (byDateDescending compareCodeUnits) (rev seedPosts) = seedPosts \<and>
   filteredPosts compareCodeUnits (rev seedPosts) ''  '' = seedPosts \<and>
   filteredPosts compareCodeUnits (rev seedPosts) '' PLAN'' = [hd seedPosts] \<and>
   hd seedPosts \<in> set (filteredPosts compareCodeUnits (rev seedPosts) ''PLAN'')"
proof -
  have c: "consistent compareCodeUnits" by (rule consistent_compareCodeUnits)
  note t = view_sorted_then_filtered[OF c, of "''PLAN''" "rev seedPosts", unfolded Let_def]
  have 1: "sorted_wrt (\<lambda>a b. compareCodeUnits (date b) (date a) \<le> 0)
     (sort_by (byDateDescending compareCodeUnits) (rev seedPosts))"
    using t by blast
  have 2: "sort_by (byDateDescending compareCodeUnits) (rev seedPosts) = seedPosts" by code_simp
  have 3: "filteredPosts compareCodeUnits (rev seedPosts) ''  '' = seedPosts" by code_simp
  have 4: "filteredPosts compareCodeUnits (rev seedPosts) '' PLAN'' = [hd seedPosts]" by code_simp
  have "hd seedPosts \<in> set (rev seedPosts)" by (simp add: seedPosts_def)
  moreover have "tags (hd seedPosts) = Some [''planning'', ''goals'']" by (simp add: seedPosts_def)
  ultimately have 5: "hd seedPosts \<in> set (filteredPosts compareCodeUnits (rev seedPosts) ''PLAN'')"
    using t by auto
  show ?thesis using c 1 2 3 4 5 by blast
qed

section \<open>Properties of the string functions\<close>

text \<open>
  The pieces of \<open>split\<close> joined with the separator give the string back, and no piece
  holds the separator. \<open>trim\<close> cuts white space off both ends and nothing else; its
  result is empty exactly for a string of white space.
\<close>

lemma split_join: "join [sep] (split sep s) = s"
proof (induction s)
  case Nil
  then show ?case by simp
next
  case (Cons c cs)
  obtain w ws where w: "split sep cs = w # ws"
    by (cases cs; cases "split sep cs") (auto split: if_splits list.splits)
  show ?case
  proof (cases "c = sep")
    case True
    then show ?thesis using Cons w by simp
  next
    case False
    then show ?thesis using Cons w by (cases ws) auto
  qed
qed

lemma split_pieces: "w \<in> set (split sep s) \<Longrightarrow> sep \<notin> set w"
proof (induction s arbitrary: w)
  case Nil
  then show ?case by simp
next
  case (Cons c cs)
  then show ?case by (auto split: if_splits list.splits)
qed

lemma all_dropWhile_iff: "(\<forall>x\<in>set (dropWhile P xs). P x) \<longleftrightarrow> dropWhile P xs = []"
proof
  assume a: "\<forall>x\<in>set (dropWhile P xs). P x"
  show "dropWhile P xs = []"
  proof (rule ccontr)
    assume n: "dropWhile P xs \<noteq> []"
    then have "\<not> P (hd (dropWhile P xs))" by (rule hd_dropWhile)
    moreover have "hd (dropWhile P xs) \<in> set (dropWhile P xs)" using n by simp
    ultimately show False using a by blast
  qed
qed (auto dest: set_dropWhileD)

lemma trim_empty_iff: "trim s = [] \<longleftrightarrow> (\<forall>c\<in>set s. isWhiteSpace c)"
  by (simp add: trim_def dropWhile_eq_Nil_conv all_dropWhile_iff)

lemma trim_decomposes:
  "\<exists>u v. s = u @ trim s @ v \<and> (\<forall>c\<in>set u. isWhiteSpace c) \<and> (\<forall>c\<in>set v. isWhiteSpace c)"
proof -
  let ?a = "dropWhile isWhiteSpace s"
  have 1: "s = takeWhile isWhiteSpace s @ ?a" by simp
  have 2: "rev ?a = takeWhile isWhiteSpace (rev ?a) @ dropWhile isWhiteSpace (rev ?a)" by simp
  have "?a = rev (rev ?a)" by simp
  also have "\<dots> = rev (dropWhile isWhiteSpace (rev ?a)) @ rev (takeWhile isWhiteSpace (rev ?a))"
    by (subst 2) (simp only: rev_append)
  finally have 3: "?a = trim s @ rev (takeWhile isWhiteSpace (rev ?a))"
    by (simp add: trim_def)
  have "s = takeWhile isWhiteSpace s @ trim s @ rev (takeWhile isWhiteSpace (rev ?a))"
    using 1 3 by metis
  moreover have "\<forall>c\<in>set (takeWhile isWhiteSpace s). isWhiteSpace c"
    by (auto dest: set_takeWhileD)
  moreover have "\<forall>c\<in>set (rev (takeWhile isWhiteSpace (rev ?a))). isWhiteSpace c"
    by (auto dest: set_takeWhileD)
  ultimately show ?thesis by blast
qed

section \<open>Loading: fallback to the seed set\<close>

text \<open>
  Claim C2, as the code has it. \<open>loadPosts\<close> returns the seed set, which has two posts,
  whenever nothing is stored under the key, the stored string is empty (the guard treats
  it as absent: it is not parsed and nothing is logged), \<^verbatim>\<open>JSON.parse\<close> throws, or the
  parsed value is not an array. It always returns a value. The message is logged exactly
  when \<^verbatim>\<open>JSON.parse\<close> was called and threw. In every other case the stored value parsed
  as an array and that array is returned.
\<close>

theorem load_falls_back_to_seed:
  "let saved = store STORAGE_KEY;
       fails = (\<exists>text. saved = Some text \<and> text \<noteq> [] \<and> JSON_parse text = SyntaxError);
       fallback = (saved = None \<or> saved = Some [] \<or> fails \<or>
                   (\<exists>text v. saved = Some text \<and> JSON_parse text = Parsed v \<and> \<not> isArray v))
   in (fallback \<longrightarrow> fst (loadPosts JSON_parse store) = posts_array seedPosts) \<and>
      (\<not> fallback \<longrightarrow>
         (\<exists>text xs. saved = Some text \<and> JSON_parse text = Parsed (JArray xs) \<and>
                    fst (loadPosts JSON_parse store) = JArray xs)) \<and>
      snd (loadPosts JSON_parse store) = (if fails then [''Failed to parse saved posts''] else []) \<and>
      length seedPosts = 2"
proof (cases "store STORAGE_KEY")
  case None
  then show ?thesis by (simp add: loadPosts_def Let_def seedPosts_def)
next
  case (Some t)
  show ?thesis
  proof (cases "t = []")
    case True
    then show ?thesis using Some by (simp add: loadPosts_def Let_def seedPosts_def)
  next
    case False
    show ?thesis
    proof (cases "JSON_parse t")
      case SyntaxError
      then show ?thesis using Some False by (simp add: loadPosts_def Let_def seedPosts_def)
    next
      case (Parsed v)
      then show ?thesis using Some False
        by (cases v) (simp_all add: loadPosts_def Let_def seedPosts_def)
    qed
  qed
qed

theorem load_falls_back_to_seed_witness:
  "let JSON_parse = (\<lambda>t. if t = ''[]'' then Parsed (JArray [])
                          else if t = ''42'' then Parsed (JNumber 42) else SyntaxError)
   in loadPosts JSON_parse Map.empty = (posts_array seedPosts, []) \<and>
      loadPosts JSON_parse [STORAGE_KEY \<mapsto> ''{oops''] =
        (posts_array seedPosts, [''Failed to parse saved posts'']) \<and>
      loadPosts JSON_parse [STORAGE_KEY \<mapsto> ''42''] = (posts_array seedPosts, []) \<and>
      loadPosts JSON_parse [STORAGE_KEY \<mapsto> ''[]''] = (JArray [], [])"
proof -
  define JSON_parse where "JSON_parse = (\<lambda>t. if t = ''[]'' then Parsed (JArray [])
                          else if t = ''42'' then Parsed (JNumber 42) else SyntaxError)"
  have p: "JSON_parse ''{oops'' = SyntaxError" "JSON_parse ''42'' = Parsed (JNumber 42)"
      "JSON_parse ''[]'' = Parsed (JArray [])"
    by (simp_all add: JSON_parse_def)
  have a: "loadPosts JSON_parse Map.empty = (posts_array seedPosts, [])"
    using load_falls_back_to_seed[of Map.empty JSON_parse]
    by (simp add: Let_def prod_eq_iff)
  have b: "loadPosts JSON_parse [STORAGE_KEY \<mapsto> ''{oops''] =
        (posts_array seedPosts, [''Failed to parse saved posts''])"
    using load_falls_back_to_seed[of "[STORAGE_KEY \<mapsto> ''{oops'']" JSON_parse] p
    by (simp add: Let_def prod_eq_iff)
  have c: "loadPosts JSON_parse [STORAGE_KEY \<mapsto> ''42''] = (posts_array seedPosts, [])"
    using load_falls_back_to_seed[of "[STORAGE_KEY \<mapsto> ''42'']" JSON_parse] p
    by (simp add: Let_def prod_eq_iff)
  have d: "loadPosts JSON_parse [STORAGE_KEY \<mapsto> ''[]''] = (JArray [], [])"
    using load_falls_back_to_seed[of "[STORAGE_KEY \<mapsto> ''[]'']" JSON_parse] p
    by (simp add: Let_def prod_eq_iff)
  have "loadPosts JSON_parse Map.empty = (posts_array seedPosts, []) \<and>
      loadPosts JSON_parse [STORAGE_KEY \<mapsto> ''{oops''] =
        (posts_array seedPosts, [''Failed to parse saved posts'']) \<and>
      loadPosts JSON_parse [STORAGE_KEY \<mapsto> ''42''] = (posts_array seedPosts, []) \<and>
      loadPosts JSON_parse [STORAGE_KEY \<mapsto> ''[]''] = (JArray [], [])"
    using a b c d by blast
  then show ?thesis unfolding Let_def JSON_parse_def .
qed

lemma seed_copy_is_loaded:
  assumes "stored \<noteq> []"
  shows "let JSON_parse = (\<lambda>t. if t = stored then Parsed (posts_array seedPosts) else SyntaxError);
             store = [STORAGE_KEY \<mapsto> stored]
         in fst (loadPosts JSON_parse store) = posts_array seedPosts \<and>
            \<not> (store STORAGE_KEY = None \<or>
               (\<exists>text. store STORAGE_KEY = Some text \<and>
                  (JSON_parse text = SyntaxError \<or>
                   (\<exists>v. JSON_parse text = Parsed v \<and> \<not> isArray v))))"
proof -
  have a: "isArray (posts_array seedPosts)" by (simp add: posts_array_def)
  show ?thesis using assms a by (simp add: Let_def loadPosts_def)
qed

text \<open>
  Claim C2 says that the seed set is returned exactly in the failure cases. It is also
  returned when the stored value is a copy of the seed set, which is what the effect
  stores after a first start: the text below is \<^verbatim>\<open>JSON.stringify(seedPosts)\<close>, it is not
  empty, it parses, and it parses to an array.
\<close>

theorem load_seed_not_only_on_failure:
  \<open>let stored = ''[{"id":"seed-1","title":"Kickoff and goals","date":"2026-01-28","tags":["planning","goals"],"summary":"Defined the scope, schedule, and first-week focus.","content":"Mapped out weekly themes, picked core resources, and set a simple daily routine."},{"id":"seed-2","title":"First practice session","date":"2026-01-27","tags":["practice","notes"],"summary":"Completed the first hands-on exercise and documented gaps.","content":"Built a tiny prototype, captured what felt confusing, and wrote follow-up questions."}]'';
       JSON_parse = (\<lambda>t. if t = stored then Parsed (posts_array seedPosts) else SyntaxError);
       store = [STORAGE_KEY \<mapsto> stored]
   in fst (loadPosts JSON_parse store) = posts_array seedPosts \<and>
      \<not> (store STORAGE_KEY = None \<or>
         (\<exists>text. store STORAGE_KEY = Some text \<and>
            (JSON_parse text = SyntaxError \<or>
             (\<exists>v. JSON_parse text = Parsed v \<and> \<not> isArray v))))\<close>
  by (subst Let_def) (rule seed_copy_is_loaded, simp)

section \<open>Loading: a stored array is returned as it is\<close>

text \<open>
  Claim C9. When the stored value parses as an array (so it is not the empty string,
  which is no JSON text), \<open>loadPosts\<close> returns that array, whatever its elements are, and
  logs nothing. A stored empty array gives the empty collection, not the seed set.
\<close>

theorem load_returns_stored_array:
  assumes "store STORAGE_KEY = Some saved" and "saved \<noteq> []"
    and "JSON_parse saved = Parsed (JArray xs)"
  shows "loadPosts JSON_parse store = (JArray xs, []) \<and>
         (xs = [] \<longrightarrow> fst (loadPosts JSON_parse store) \<noteq> posts_array seedPosts)"
  using assms by (simp add: loadPosts_def posts_array_def seedPosts_def)

theorem load_returns_stored_array_witness:
  "let JSON_parse = (\<lambda>t. if t = ''[]'' then Parsed (JArray [])
                          else if t = ''[1,null]'' then Parsed (JArray [JNumber 1, JNull])
                          else SyntaxError)
   in loadPosts JSON_parse [STORAGE_KEY \<mapsto> ''[1,null]''] = (JArray [JNumber 1, JNull], []) \<and>
      loadPosts JSON_parse [STORAGE_KEY \<mapsto> ''[]''] = (JArray [], []) \<and>
      JArray [] \<noteq> posts_array seedPosts"
proof -
  define JSON_parse where "JSON_parse = (\<lambda>t. if t = ''[]'' then Parsed (JArray [])
                          else if t = ''[1,null]'' then Parsed (JArray [JNumber 1, JNull])
                          else SyntaxError)"
  have p: "JSON_parse ''[1,null]'' = Parsed (JArray [JNumber 1, JNull])"
      "JSON_parse ''[]'' = Parsed (JArray [])"
    by (simp_all add: JSON_parse_def)
  have k1: "[STORAGE_KEY \<mapsto> ''[1,null]''] STORAGE_KEY = Some ''[1,null]''" by simp
  have n1: "''[1,null]'' \<noteq> []" by simp
  have a: "loadPosts JSON_parse [STORAGE_KEY \<mapsto> ''[1,null]''] = (JArray [JNumber 1, JNull], [])"
    using load_returns_stored_array[of "[STORAGE_KEY \<mapsto> ''[1,null]'']" "''[1,null]''" JSON_parse
        "[JNumber 1, JNull]", OF k1 n1 p(1)]
    by blast
  have k2: "[STORAGE_KEY \<mapsto> ''[]''] STORAGE_KEY = Some ''[]''" by simp
  have n2: "''[]'' \<noteq> []" by simp
  have b: "loadPosts JSON_parse [STORAGE_KEY \<mapsto> ''[]''] = (JArray [], [])"
    and b': "fst (loadPosts JSON_parse [STORAGE_KEY \<mapsto> ''[]'']) \<noteq> posts_array seedPosts"
    using load_returns_stored_array[of "[STORAGE_KEY \<mapsto> ''[]'']" "''[]''" JSON_parse "[]",
        OF k2 n2 p(2)]
    by blast+
  have c: "JArray [] \<noteq> posts_array seedPosts"
    using b' unfolding b by simp
  have "loadPosts JSON_parse [STORAGE_KEY \<mapsto> ''[1,null]''] = (JArray [JNumber 1, JNull], []) \<and>
      loadPosts JSON_parse [STORAGE_KEY \<mapsto> ''[]''] = (JArray [], []) \<and>
      JArray [] \<noteq> posts_array seedPosts"
    using a b c by blast
  then show ?thesis unfolding Let_def JSON_parse_def .
qed

section \<open>Submitting the draft\<close>

text \<open>
  Claim C3, as the code has it. When the trimmed title and the trimmed content of the
  draft are not empty, \<open>handleSubmit\<close> puts one new post in front of the collection. Its
  title, summary and content are the draft's, trimmed; its date is the draft's date, or
  the current date when the draft's date is the empty string; its tags are the pieces of
  the draft's tags between commas, trimmed, without the empty ones; its id is the value
  of \<open>makeId\<close>, which is not compared with the ids of the collection. The draft becomes
  the empty draft with the date of the new post. The tags "planning, , practice," are
  parsed to planning and practice.
\<close>

theorem submit_creates_post:
  assumes "trim (draft_title (draft s)) \<noteq> []" and "trim (draft_content (draft s)) \<noteq> []"
  shows "\<exists>p. posts (handleSubmit moduleDate rt s) = p # posts s \<and>
             post_id p = makeId rt \<and>
             title p = trim (draft_title (draft s)) \<and>
             summary p = trim (draft_summary (draft s)) \<and>
             content p = trim (draft_content (draft s)) \<and>
             date p = (if draft_date (draft s) = [] then today rt else draft_date (draft s)) \<and>
             tags p = Some (filter (\<lambda>tag. tag \<noteq> [])
                             (map trim (split CHR '','' (draft_tags (draft s))))) \<and>
             draft (handleSubmit moduleDate rt s) =
               \<lparr>draft_title = [], draft_date = date p, draft_tags = [], draft_summary = [],
                draft_content = []\<rparr> \<and>
             parseTags ''planning, , practice,'' = [''planning'', ''practice'']"
proof -
  have e: "parseTags ''planning, , practice,'' = [''planning'', ''practice'']"
    by (simp add: parseTags_def trim_def isWhiteSpace_def)
  show ?thesis
    using assms e
    by (simp add: handleSubmit_def Let_def newPost_def addPost_def emptyDraft_def parseTags_def)
qed

theorem submit_creates_post_witness:
  "let d = \<lparr>draft_title = '' Test '', draft_date = [], draft_tags = ''planning, , practice,'',
            draft_summary = [], draft_content = ''Body''\<rparr>;
       s = \<lparr>posts = seedPosts, draft = d, query = [], showForm = True, localStorage = Map.empty\<rparr>;
       rt = \<lparr>today = ''2026-02-01'', randomUUID = None, now = 1769904000000, confirm = False\<rparr>
   in trim (draft_title (draft s)) \<noteq> [] \<and> trim (draft_content (draft s)) \<noteq> [] \<and>
      posts (handleSubmit ''2026-01-31'' rt s) =
        \<lparr>post_id = ''post-1769904000000'', title = ''Test'', date = ''2026-02-01'',
         tags = Some [''planning'', ''practice''], summary = [], content = ''Body''\<rparr> # seedPosts \<and>
      draft (handleSubmit ''2026-01-31'' rt s) =
        \<lparr>draft_title = [], draft_date = ''2026-02-01'', draft_tags = [], draft_summary = [],
         draft_content = []\<rparr>"
proof -
  define d where "d = \<lparr>draft_title = '' Test '', draft_date = [], draft_tags = ''planning, , practice,'',
            draft_summary = [], draft_content = ''Body''\<rparr>"
  define s where "s = \<lparr>posts = seedPosts, draft = d, query = [], showForm = True, localStorage = Map.empty\<rparr>"
  define rt where "rt = \<lparr>today = ''2026-02-01'', randomUUID = None, now = 1769904000000, confirm = False\<rparr>"
  have t: "trim (draft_title (draft s)) = ''Test''"
    by (simp add: s_def d_def trim_def isWhiteSpace_def)
  have c: "trim (draft_content (draft s)) = ''Body''"
    by (simp add: s_def d_def trim_def isWhiteSpace_def)
  have i: "makeId rt = ''post-1769904000000''"
    by (simp add: rt_def makeId_def decimal.simps)
  have g: "filter (\<lambda>tag. tag \<noteq> []) (map trim (split CHR '','' (draft_tags (draft s))))
           = [''planning'', ''practice'']"
    by (simp add: s_def d_def trim_def isWhiteSpace_def)
  have u: "trim (draft_summary (draft s)) = []"
    by (simp add: s_def d_def trim_def)
  have dd: "draft_date (draft s) = []" "today rt = ''2026-02-01''" "posts s = seedPosts"
    by (simp_all add: s_def d_def rt_def)
  from submit_creates_post[of s "''2026-01-31''" rt]
  obtain p where p: "posts (handleSubmit ''2026-01-31'' rt s) = p # posts s"
      "post_id p = makeId rt" "title p = trim (draft_title (draft s))"
      "summary p = trim (draft_summary (draft s))" "content p = trim (draft_content (draft s))"
      "date p = (if draft_date (draft s) = [] then today rt else draft_date (draft s))"
      "tags p = Some (filter (\<lambda>tag. tag \<noteq> []) (map trim (split CHR '','' (draft_tags (draft s)))))"
      "draft (handleSubmit ''2026-01-31'' rt s) =
         \<lparr>draft_title = [], draft_date = date p, draft_tags = [], draft_summary = [],
          draft_content = []\<rparr>"
    using t c by auto
  have "p = \<lparr>post_id = ''post-1769904000000'', title = ''Test'', date = ''2026-02-01'',
         tags = Some [''planning'', ''practice''], summary = [], content = ''Body''\<rparr>"
    using p(2-7) unfolding t c i g u dd by simp
  then have "trim (draft_title (draft s)) \<noteq> [] \<and> trim (draft_content (draft s)) \<noteq> [] \<and>
      posts (handleSubmit ''2026-01-31'' rt s) =
        \<lparr>post_id = ''post-1769904000000'', title = ''Test'', date = ''2026-02-01'',
         tags = Some [''planning'', ''practice''], summary = [], content = ''Body''\<rparr> # seedPosts \<and>
      draft (handleSubmit ''2026-01-31'' rt s) =
        \<lparr>draft_title = [], draft_date = ''2026-02-01'', draft_tags = [], draft_summary = [],
         draft_content = []\<rparr>"
    using p(1,8) t c dd by simp
  then show ?thesis
    unfolding Let_def d_def s_def rt_def by simp
qed

text \<open>
  Claim C3 says that the id of the new post is fresh. Where the runtime has no
  \<^verbatim>\<open>crypto.randomUUID\<close> the id is made from the clock alone: a second valid submit at
  the same \<^verbatim>\<open>Date.now()\<close> puts a post in front whose id a post of the collection has
  already.
\<close>

theorem submit_id_already_in_use:
  "let rt = \<lparr>today = ''2026-02-01'', randomUUID = None, now = 1769904000000, confirm = False\<rparr>;
       s0 = \<lparr>posts = seedPosts,
             draft = \<lparr>draft_title = ''One'', draft_date = [], draft_tags = [], draft_summary = [],
                      draft_content = ''x''\<rparr>,
             query = [], showForm = True, localStorage = Map.empty\<rparr>;
       s1 = handleChange Content ''y'' (handleChange Title ''Two'' (handleSubmit ''2026-02-01'' rt s0));
       s2 = handleSubmit ''2026-02-01'' rt s1
   in trim (draft_title (draft s1)) \<noteq> [] \<and> trim (draft_content (draft s1)) \<noteq> [] \<and>
      map post_id (posts s1) = [''post-1769904000000'', ''seed-1'', ''seed-2''] \<and>
      map post_id (posts s2) =
        [''post-1769904000000'', ''post-1769904000000'', ''seed-1'', ''seed-2''] \<and>
      map title (posts s2) = [''Two'', ''One'', ''Kickoff and goals'', ''First practice session''] \<and>
      post_id (hd (posts s2)) \<in> set (map post_id (posts s1))"
proof -
  have i: "makeId \<lparr>today = ''2026-02-01'', randomUUID = None, now = 1769904000000, confirm = False\<rparr>
      = ''post-1769904000000''"
    by (simp add: makeId_def decimal.simps)
  have t: "trim ''One'' = ''One''" "trim ''Two'' = ''Two''" "trim ''x'' = ''x''" "trim ''y'' = ''y''"
    by (simp_all add: trim_def isWhiteSpace_def)
  show ?thesis
    by (simp add: Let_def handleSubmit_def newPost_def i t addPost_def emptyDraft_def seedPosts_def)
qed

text \<open>
  Claim C4. When the trimmed title or the trimmed content of the draft is empty, a submit
  changes nothing: the handler returns the state it was given, and so the effect stores
  nothing.
\<close>

theorem invalid_submit_is_noop:
  assumes "trim (draft_title (draft s)) = [] \<or> trim (draft_content (draft s)) = []"
  shows "handleSubmit moduleDate rt s = s \<and> dispatch moduleDate stringify rt Submit s = s"
  using assms by (auto simp: handleSubmit_def dispatch_def saveEffect_def)

theorem invalid_submit_is_noop_witness:
  "let s = \<lparr>posts = seedPosts,
            draft = \<lparr>draft_title = ''  '', draft_date = ''2026-02-01'', draft_tags = ''x'',
                     draft_summary = [], draft_content = ''Body''\<rparr>,
            query = [], showForm = True, localStorage = Map.empty\<rparr>;
       rt = \<lparr>today = ''2026-02-01'', randomUUID = None, now = 1769904000000, confirm = False\<rparr>
   in trim (draft_title (draft s)) = [] \<and>
      handleSubmit ''2026-01-31'' rt s = s \<and>
      dispatch ''2026-01-31'' (\<lambda>ps. []) rt Submit s = s"
proof -
  define s where "s = \<lparr>posts = seedPosts,
            draft = \<lparr>draft_title = ''  '', draft_date = ''2026-02-01'', draft_tags = ''x'',
                     draft_summary = [], draft_content = ''Body''\<rparr>,
            query = [], showForm = True, localStorage = Map.empty\<rparr>"
  have t: "trim (draft_title (draft s)) = []"
    by (simp add: s_def trim_def isWhiteSpace_def)
  then have "trim (draft_title (draft s)) = [] \<or> trim (draft_content (draft s)) = []" by simp
  from invalid_submit_is_noop[OF this] t
  show ?thesis unfolding Let_def s_def by blast
qed

section \<open>Resetting and clearing\<close>

text \<open>
  Claim C5. When the user declines the confirmation, a reset leaves the whole state as it
  was; when the user confirms, the collection becomes the seed set of two posts, whatever
  it held before.
\<close>

theorem reset_asks_first:
  "(\<not> confirm rt \<longrightarrow> resetPosts rt s = s \<and> dispatch moduleDate stringify rt Reset s = s) \<and>
   (confirm rt \<longrightarrow> posts (resetPosts rt s) = seedPosts \<and>
                    posts (dispatch moduleDate stringify rt Reset s) = seedPosts) \<and>
   length seedPosts = 2"
  by (simp add: resetPosts_def dispatch_def saveEffect_def seedPosts_def)

theorem reset_asks_first_witness:
  "let s = \<lparr>posts = [hd seedPosts], draft = emptyDraft ''2026-01-31'', query = ''x'',
            showForm = True, localStorage = Map.empty\<rparr>;
       no = \<lparr>today = ''2026-02-01'', randomUUID = None, now = 0, confirm = False\<rparr>;
       yes = no\<lparr>confirm := True\<rparr>
   in \<not> confirm no \<and> confirm yes \<and>
      dispatch ''2026-01-31'' (\<lambda>ps. []) no Reset s = s \<and>
      posts (dispatch ''2026-01-31'' (\<lambda>ps. []) yes Reset s) = seedPosts"
proof -
  define s where "s = \<lparr>posts = [hd seedPosts], draft = emptyDraft ''2026-01-31'', query = ''x'',
            showForm = True, localStorage = Map.empty\<rparr>"
  define no where "no = \<lparr>today = ''2026-02-01'', randomUUID = None, now = 0, confirm = False\<rparr>"
  define yes where "yes = no\<lparr>confirm := True\<rparr>"
  have n: "\<not> confirm no" by (simp add: no_def)
  have y: "confirm yes" by (simp add: yes_def)
  have "\<not> confirm no \<and> confirm yes \<and>
      dispatch ''2026-01-31'' (\<lambda>ps. []) no Reset s = s \<and>
      posts (dispatch ''2026-01-31'' (\<lambda>ps. []) yes Reset s) = seedPosts"
    using reset_asks_first[of no s "''2026-01-31''" "\<lambda>ps. []"]
      reset_asks_first[of yes s "''2026-01-31''" "\<lambda>ps. []"] n y
    by blast
  then show ?thesis unfolding Let_def s_def no_def yes_def .
qed

text \<open>
  Claim C8. Clearing sets every field of the draft to empty, and asks nothing. The date it
  sets is the date of \<^verbatim>\<open>emptyDraft\<close>, computed when the module was evaluated, whatever the
  current date is: a module evaluated on 2026-01-28 clears to that date on 2026-01-29.
\<close>

theorem clear_uses_module_date:
  "draft (dispatch moduleDate stringify rt Clear s) =
     \<lparr>draft_title = [], draft_date = moduleDate, draft_tags = [], draft_summary = [],
      draft_content = []\<rparr> \<and>
   draft_date (draft (dispatch ''2026-01-28'' stringify (rt\<lparr>today := ''2026-01-29''\<rparr>) Clear s))
     \<noteq> today (rt\<lparr>today := ''2026-01-29''\<rparr>)"
  by (simp add: dispatch_def saveEffect_def clearDraft_def emptyDraft_def)

section \<open>The length of the collection\<close>

lemma length_removePost_absent:
  "i \<notin> set (map post_id ps) \<Longrightarrow> removePost i ps = ps"
  by (induction ps) (auto simp: removePost_def)

lemma length_removePost_present:
  "distinct (map post_id ps) \<Longrightarrow> i \<in> set (map post_id ps) \<Longrightarrow>
   Suc (length (removePost i ps)) = length ps"
proof (induction ps)
  case Nil
  then show ?case by simp
next
  case (Cons p ps)
  show ?case
  proof (cases "post_id p = i")
    case True
    then have "i \<notin> set (map post_id ps)" using Cons.prems(1) by auto
    then have "removePost i ps = ps" by (rule length_removePost_absent)
    then show ?thesis using True by (simp add: removePost_def)
  next
    case False
    then have "i \<in> set (map post_id ps)" using Cons.prems(2) by auto
    then have "Suc (length (removePost i ps)) = length ps"
      using Cons.IH Cons.prems(1) by simp
    then show ?thesis using False by (simp add: removePost_def)
  qed
qed

lemma distinct_removePost:
  "distinct (map post_id ps) \<Longrightarrow> distinct (map post_id (removePost i ps))"
  by (simp add: removePost_def distinct_map_filter)

lemma distinct_addPost:
  "distinct (map post_id ps) \<Longrightarrow> post_id p \<notin> set (map post_id ps) \<Longrightarrow>
   distinct (map post_id (addPost p ps))"
  by (simp add: addPost_def)

text \<open>
  Claim C6, as the code has it. A remove deletes every post with the id. So the law
  holds for runs in which no two posts of the collection ever share an id: from a
  collection with distinct ids, when every added post has an id that is not in the
  collection, the final length plus the number of successful removes is the first length
  plus the number of adds.
\<close>

theorem length_counts_adds_and_removes:
  assumes "distinct (map post_id ps)" and "fresh_adds ops ps"
  shows "length (apply_ops ops ps) + count_successful_removes ops ps = length ps + count_adds ops"
  using assms
proof (induction ops arbitrary: ps)
  case Nil
  then show ?case by simp
next
  case (Cons x xs)
  show ?case
  proof (cases x)
    case (AddOp p)
    have f: "post_id p \<notin> set (map post_id ps)" and r: "fresh_adds xs (addPost p ps)"
      using Cons.prems(2) AddOp by simp_all
    have d: "distinct (map post_id (addPost p ps))"
      using Cons.prems(1) f by (rule distinct_addPost)
    have "length (apply_ops xs (addPost p ps)) + count_successful_removes xs (addPost p ps)
          = length (addPost p ps) + count_adds xs"
      using Cons.IH[OF d r] .
    then show ?thesis using AddOp by (simp add: addPost_def)
  next
    case (RemoveOp i)
    have r: "fresh_adds xs (removePost i ps)"
      using Cons.prems(2) RemoveOp by simp
    have d: "distinct (map post_id (removePost i ps))"
      using Cons.prems(1) by (rule distinct_removePost)
    have ih: "length (apply_ops xs (removePost i ps)) + count_successful_removes xs (removePost i ps)
          = length (removePost i ps) + count_adds xs"
      using Cons.IH[OF d r] .
    show ?thesis
    proof (cases "i \<in> set (map post_id ps)")
      case True
      then have "Suc (length (removePost i ps)) = length ps"
        using Cons.prems(1) length_removePost_present by blast
      then show ?thesis using ih True RemoveOp by simp
    next
      case False
      then have "removePost i ps = ps" by (rule length_removePost_absent)
      then show ?thesis using ih False RemoveOp by simp
    qed
  qed
qed

theorem length_counts_adds_and_removes_witness:
  "let a = \<lparr>post_id = ''a'', title = ''A'', date = ''2026-02-01'', tags = Some [], summary = [],
            content = ''x''\<rparr>;
       b = a\<lparr>post_id := ''b''\<rparr>;
       ops = [AddOp a, RemoveOp ''zzz'', AddOp b, RemoveOp ''a'']
   in distinct (map post_id []) \<and> fresh_adds ops [] \<and>
      apply_ops ops [] = [b] \<and> count_adds ops = 2 \<and> count_successful_removes ops [] = 1 \<and>
      length (apply_ops ops []) + count_successful_removes ops [] = length ([] :: post list) + count_adds ops"
proof -
  define a where "a = \<lparr>post_id = ''a'', title = ''A'', date = ''2026-02-01'', tags = Some [], summary = [],
            content = ''x''\<rparr>"
  define b where "b = a\<lparr>post_id := ''b''\<rparr>"
  define ops where "ops = [AddOp a, RemoveOp ''zzz'', AddOp b, RemoveOp ''a'']"
  have d: "distinct (map post_id ([] :: post list))" by simp
  have f: "fresh_adds ops []"
    by (simp add: ops_def a_def b_def addPost_def removePost_def)
  have r: "apply_ops ops [] = [b]"
    by (simp add: ops_def a_def b_def addPost_def removePost_def)
  have c: "count_adds ops = 2" by (simp add: ops_def)
  have s: "count_successful_removes ops [] = 1"
    by (simp add: ops_def a_def b_def addPost_def removePost_def)
  have "distinct (map post_id []) \<and> fresh_adds ops [] \<and>
      apply_ops ops [] = [b] \<and> count_adds ops = 2 \<and> count_successful_removes ops [] = 1 \<and>
      length (apply_ops ops []) + count_successful_removes ops [] = length ([] :: post list) + count_adds ops"
    using length_counts_adds_and_removes[OF d f] f r c s by simp
  then show ?thesis unfolding Let_def a_def b_def ops_def .
qed

text \<open>
  Claim C6 as stated fails when two added posts share an id, as two posts made in the
  same millisecond do where the runtime has no \<^verbatim>\<open>crypto.randomUUID\<close>: one successful remove
  then deletes both, and the length is 0 after two adds and one successful remove.
\<close>

theorem same_id_removed_together:
  "let rt = \<lparr>today = ''2026-02-01'', randomUUID = None, now = 1769904000000, confirm = False\<rparr>;
       first = newPost rt \<lparr>draft_title = ''One'', draft_date = [], draft_tags = [],
                            draft_summary = [], draft_content = ''x''\<rparr>;
       second = newPost rt \<lparr>draft_title = ''Two'', draft_date = [], draft_tags = [],
                             draft_summary = [], draft_content = ''y''\<rparr>;
       ops = [AddOp first, AddOp second, RemoveOp ''post-1769904000000'']
   in post_id first = ''post-1769904000000'' \<and> post_id second = ''post-1769904000000'' \<and>
      length (apply_ops ops []) = 0 \<and> count_adds ops = 2 \<and> count_successful_removes ops [] = 1 \<and>
      int (length (apply_ops ops [])) \<noteq> int (count_adds ops) - int (count_successful_removes ops [])"
proof -
  have i: "makeId \<lparr>today = ''2026-02-01'', randomUUID = None, now = 1769904000000, confirm = False\<rparr>
      = ''post-1769904000000''"
    by (simp add: makeId_def decimal.simps)
  show ?thesis
    by (simp add: Let_def newPost_def i addPost_def removePost_def)
qed

section \<open>The invariant of the data model\<close>

lemma valid_newPost:
  "trim (draft_title d) \<noteq> [] \<Longrightarrow> trim (draft_content d) \<noteq> [] \<Longrightarrow> valid_post (newPost rt d)"
  by (simp add: valid_post_def newPost_def parseTags_def)

lemma store_invariant_seedPosts: "store_invariant seedPosts"
  by (simp add: store_invariant_def valid_post_def seedPosts_def)

lemma store_invariant_removePost:
  "store_invariant ps \<Longrightarrow> store_invariant (removePost i ps)"
  by (simp add: store_invariant_def removePost_def distinct_map_filter list_all_iff)

lemma store_invariant_addPost:
  "store_invariant ps \<Longrightarrow> valid_post p \<Longrightarrow> post_id p \<notin> set (map post_id ps) \<Longrightarrow>
   store_invariant (addPost p ps)"
  by (simp add: store_invariant_def addPost_def)

lemma store_invariant_handleSubmit:
  assumes "store_invariant (posts s)" and "makeId rt \<notin> set (map post_id (posts s))"
  shows "store_invariant (posts (handleSubmit moduleDate rt s))"
proof (cases "trim (draft_title (draft s)) = [] \<or> trim (draft_content (draft s)) = []")
  case True
  then show ?thesis using assms(1) by (simp add: handleSubmit_def)
next
  case False
  then have v: "valid_post (newPost rt (draft s))" by (simp add: valid_newPost)
  have i: "post_id (newPost rt (draft s)) \<notin> set (map post_id (posts s))"
    using assms(2) by (simp add: newPost_def)
  have "store_invariant (addPost (newPost rt (draft s)) (posts s))"
    using assms(1) v i by (rule store_invariant_addPost)
  then show ?thesis using False by (simp add: handleSubmit_def Let_def)
qed

lemma store_invariant_dispatch:
  assumes "store_invariant (posts s)"
    and "e \<noteq> Submit \<or> makeId rt \<notin> set (map post_id (posts s))"
  shows "store_invariant (posts (dispatch moduleDate stringify rt e s))"
proof (cases e)
  case (Change f v)
  then show ?thesis using assms(1) by (cases f) (simp_all add: dispatch_def saveEffect_def)
next
  case Submit
  then show ?thesis
    using assms store_invariant_handleSubmit[of s rt moduleDate]
    by (simp add: dispatch_def saveEffect_def)
next
  case (Remove i)
  then show ?thesis
    using assms(1) store_invariant_removePost[of "posts s" i]
    by (simp add: dispatch_def saveEffect_def)
next
  case Reset
  then show ?thesis
    using assms(1) store_invariant_seedPosts
    by (simp add: dispatch_def saveEffect_def resetPosts_def)
next
  case Clear
  then show ?thesis using assms(1) by (simp add: dispatch_def saveEffect_def clearDraft_def)
next
  case (SetQuery q)
  then show ?thesis using assms(1) by (simp add: dispatch_def saveEffect_def)
next
  case ToggleForm
  then show ?thesis using assms(1) by (simp add: dispatch_def saveEffect_def)
qed

lemma valid_removePost: "list_all valid_post ps \<Longrightarrow> list_all valid_post (removePost i ps)"
  by (simp add: removePost_def list_all_iff)

lemma valid_handleSubmit:
  assumes "list_all valid_post (posts s)"
  shows "list_all valid_post (posts (handleSubmit moduleDate rt s))"
proof (cases "trim (draft_title (draft s)) = [] \<or> trim (draft_content (draft s)) = []")
  case True
  then show ?thesis using assms by (simp add: handleSubmit_def)
next
  case False
  then have "valid_post (newPost rt (draft s))"
    by (simp add: valid_post_def newPost_def parseTags_def)
  then show ?thesis using assms False by (simp add: handleSubmit_def Let_def addPost_def)
qed

lemma valid_seedPosts: "list_all valid_post seedPosts"
  by (simp add: valid_post_def seedPosts_def)

lemma valid_dispatch:
  assumes "list_all valid_post (posts s)"
  shows "list_all valid_post (posts (dispatch moduleDate stringify rt e s))"
proof (cases e)
  case (Change f v)
  then show ?thesis using assms by (cases f) (simp_all add: dispatch_def saveEffect_def)
next
  case Submit
  then show ?thesis
    using assms valid_handleSubmit[OF assms, of moduleDate rt]
    by (simp add: dispatch_def saveEffect_def)
next
  case (Remove i)
  then show ?thesis
    using assms valid_removePost[OF assms, of i] by (simp add: dispatch_def saveEffect_def)
next
  case Reset
  then show ?thesis
    using assms valid_seedPosts by (simp add: dispatch_def saveEffect_def resetPosts_def)
next
  case Clear
  then show ?thesis using assms by (simp add: dispatch_def saveEffect_def clearDraft_def)
next
  case (SetQuery q)
  then show ?thesis using assms by (simp add: dispatch_def saveEffect_def)
next
  case ToggleForm
  then show ?thesis using assms by (simp add: dispatch_def saveEffect_def)
qed

lemma valid_run:
  "list_all valid_post (posts s) \<Longrightarrow> list_all valid_post (posts (run moduleDate stringify es s))"
proof (induction es arbitrary: s)
  case Nil
  then show ?case by simp
next
  case (Cons x xs)
  obtain rt e where x: "x = (rt, e)" by (cases x)
  have "list_all valid_post (posts (dispatch moduleDate stringify rt e s))"
    using Cons.prems by (rule valid_dispatch)
  then show ?case using Cons.IH x by simp
qed

text \<open>
  Claim C7, as the code has it. The seed set satisfies the invariant: titles and contents
  are not empty, tags hold no empty string, ids are distinct. Every event keeps it, as
  long as the id made for a submitted post is not in the collection already. So it holds
  in every state reached from a collection that satisfies it, by any events with ids
  that are not in use. The part about titles, contents and tags needs nothing of the
  ids: every event keeps it.
\<close>

theorem invariant_of_runs:
  "store_invariant seedPosts \<and>
   (store_invariant (posts s) \<longrightarrow> fresh_ids moduleDate stringify es s \<longrightarrow>
      store_invariant (posts (run moduleDate stringify es s))) \<and>
   (list_all valid_post (posts s) \<longrightarrow>
      list_all valid_post (posts (run moduleDate stringify es s)))"
proof -
  have "store_invariant (posts (run moduleDate stringify es s))"
    if "store_invariant (posts s)" and "fresh_ids moduleDate stringify es s"
    using that
  proof (induction es arbitrary: s)
    case Nil
    then show ?case by simp
  next
    case (Cons x xs)
    obtain rt e where x: "x = (rt, e)" by (cases x)
    have "store_invariant (posts (dispatch moduleDate stringify rt e s))"
      using Cons.prems x by (simp add: store_invariant_dispatch)
    moreover have "fresh_ids moduleDate stringify xs (dispatch moduleDate stringify rt e s)"
      using Cons.prems(2) x by simp
    ultimately show ?case using Cons.IH x by simp
  qed
  then show ?thesis using store_invariant_seedPosts valid_run by blast
qed

theorem invariant_of_runs_witness:
  "let s = \<lparr>posts = seedPosts, draft = emptyDraft ''2026-01-31'', query = [], showForm = True,
            localStorage = Map.empty\<rparr>;
       rt = \<lparr>today = ''2026-02-01'', randomUUID = Some ''0b5e'', now = 0, confirm = False\<rparr>;
       es = [(rt, Change Title ''Test''), (rt, Change Content ''Body''), (rt, Submit),
             (rt, Remove ''seed-1''), (rt, Reset)]
   in store_invariant (posts s) \<and> fresh_ids ''2026-01-31'' (\<lambda>ps. []) es s \<and>
      store_invariant (posts (run ''2026-01-31'' (\<lambda>ps. []) es s)) \<and>
      map post_id (posts (run ''2026-01-31'' (\<lambda>ps. []) es s)) = [''0b5e'', ''seed-2'']"
proof -
  define s where "s = \<lparr>posts = seedPosts, draft = emptyDraft ''2026-01-31'', query = [], showForm = True,
            localStorage = Map.empty\<rparr>"
  define rt where "rt = \<lparr>today = ''2026-02-01'', randomUUID = Some ''0b5e'', now = 0, confirm = False\<rparr>"
  define es where "es = [(rt, Change Title ''Test''), (rt, Change Content ''Body''), (rt, Submit),
             (rt, Remove ''seed-1''), (rt, Reset)]"
  have i: "store_invariant (posts s)"
    by (simp add: s_def store_invariant_seedPosts)
  have t: "trim ''Test'' = ''Test''" "trim ''Body'' = ''Body''"
    by (simp_all add: trim_def isWhiteSpace_def)
  have f: "fresh_ids ''2026-01-31'' (\<lambda>ps. []) es s"
    by (simp add: es_def s_def rt_def dispatch_def saveEffect_def handleSubmit_def emptyDraft_def t
        newPost_def makeId_def addPost_def removePost_def resetPosts_def seedPosts_def Let_def)
  have m: "map post_id (posts (run ''2026-01-31'' (\<lambda>ps. []) es s)) = [''0b5e'', ''seed-2'']"
    by (simp add: es_def s_def rt_def dispatch_def saveEffect_def handleSubmit_def emptyDraft_def t
        newPost_def makeId_def addPost_def removePost_def resetPosts_def seedPosts_def Let_def)
  have "store_invariant (posts s) \<and> fresh_ids ''2026-01-31'' (\<lambda>ps. []) es s \<and>
      store_invariant (posts (run ''2026-01-31'' (\<lambda>ps. []) es s)) \<and>
      map post_id (posts (run ''2026-01-31'' (\<lambda>ps. []) es s)) = [''0b5e'', ''seed-2'']"
    using invariant_of_runs[of s "''2026-01-31''" "\<lambda>ps. []" es] i f m by blast
  then show ?thesis unfolding Let_def s_def rt_def es_def .
qed

text \<open>
  Claim C7 says the invariant holds after loading. \<open>loadPosts\<close> returns a stored array
  without looking at its elements: the stored post below has an empty title, an empty
  content and an empty tag, and it is the collection after loading.
\<close>

theorem load_does_not_validate:
  \<open>let stored = ''[{"id":"a","title":"","date":"2026-02-01","tags":[""],"summary":"","content":""}]'';
       bad = \<lparr>post_id = ''a'', title = [], date = ''2026-02-01'', tags = Some [[]], summary = [],
              content = []\<rparr>;
       JSON_parse = (\<lambda>t. if t = stored then Parsed (posts_array [bad]) else SyntaxError);
       store = [STORAGE_KEY \<mapsto> stored]
   in fst (loadPosts JSON_parse store) = posts_array [bad] \<and> \<not> store_invariant [bad]\<close>
  by (simp add: Let_def loadPosts_def posts_array_def store_invariant_def valid_post_def)

section \<open>The view does not change the store\<close>

text \<open>
  Claim C10. Computing the view works on a copy: for a collection that is an array in
  use, the array holds the same posts afterwards, as does every other array in use; the
  view is a different array, and it holds what \<open>filteredPosts\<close> computes from the
  collection. Changing the query changes neither the collection nor what is stored, and
  the view of the new state is computed from the same collection.
\<close>

theorem view_leaves_store_alone:
  assumes "a < next_ref h"
  shows "(case filteredPosts_heap localeCompare a q h of
            (view, h') \<Rightarrow>
              arrays h' a = arrays h a \<and>
              (\<forall>r. r < next_ref h \<longrightarrow> arrays h' r = arrays h r) \<and>
              arrays h' view = filteredPosts localeCompare (arrays h a) q \<and>
              view \<noteq> a) \<and>
         posts (dispatch moduleDate stringify rt (SetQuery q') s) = posts s \<and>
         localStorage (dispatch moduleDate stringify rt (SetQuery q') s) = localStorage s \<and>
         filteredPosts localeCompare (posts (dispatch moduleDate stringify rt (SetQuery q') s)) q'
           = filteredPosts localeCompare (posts s) q'"
proof -
  have 1: "posts (dispatch moduleDate stringify rt (SetQuery q') s) = posts s"
    by (simp add: dispatch_def saveEffect_def)
  have 2: "localStorage (dispatch moduleDate stringify rt (SetQuery q') s) = localStorage s"
    by (simp add: dispatch_def saveEffect_def)
  have 3: "case filteredPosts_heap localeCompare a q h of
            (view, h') \<Rightarrow>
              arrays h' a = arrays h a \<and>
              (\<forall>r. r < next_ref h \<longrightarrow> arrays h' r = arrays h r) \<and>
              arrays h' view = filteredPosts localeCompare (arrays h a) q \<and>
              view \<noteq> a"
    using assms
    by (simp add: filteredPosts_heap_def filteredPosts_def spread_def sort_in_place_def
        filter_new_def Let_def)
  show ?thesis using 1 2 3 by simp
qed

theorem view_leaves_store_alone_witness:
  "let h = \<lparr>arrays = (\<lambda>r. if r = 0 then rev seedPosts else []), next_ref = 1\<rparr>
   in (0::nat) < next_ref h \<and>
      arrays (snd (filteredPosts_heap compareCodeUnits 0 ''PLAN'' h)) 0 = rev seedPosts \<and>
      arrays (snd (filteredPosts_heap compareCodeUnits 0 ''PLAN'' h))
        (fst (filteredPosts_heap compareCodeUnits 0 ''PLAN'' h)) = [hd seedPosts]"
proof -
  define h where "h = \<lparr>arrays = (\<lambda>r. if r = 0 then rev seedPosts else []), next_ref = (1::nat)\<rparr>"
  have l: "(0::nat) < next_ref h" by (simp add: h_def)
  obtain view h' where v: "filteredPosts_heap compareCodeUnits 0 ''PLAN'' h = (view, h')"
    by (cases "filteredPosts_heap compareCodeUnits 0 ''PLAN'' h")
  have "arrays h' 0 = arrays h 0 \<and> arrays h' view = filteredPosts compareCodeUnits (arrays h 0) ''PLAN''"
    using view_leaves_store_alone[OF l, of compareCodeUnits "''PLAN''"] v by simp
  moreover have "arrays h 0 = rev seedPosts" by (simp add: h_def)
  moreover have "filteredPosts compareCodeUnits (rev seedPosts) ''PLAN'' = [hd seedPosts]"
    by code_simp
  ultimately have "(0::nat) < next_ref h \<and>
      arrays (snd (filteredPosts_heap compareCodeUnits 0 ''PLAN'' h)) 0 = rev seedPosts \<and>
      arrays (snd (filteredPosts_heap compareCodeUnits 0 ''PLAN'' h))
        (fst (filteredPosts_heap compareCodeUnits 0 ''PLAN'' h)) = [hd seedPosts]"
    using l v by simp
  then show ?thesis unfolding Let_def h_def .
qed

end
